theory Spec2Isabelle
  imports Complex_Main
begin

section \<open>Data model of \<open>nemesis/event_generation/detector.py\<close>\<close>

text \<open>
  Floating-point numbers of the source are modelled as mathematical reals: positions,
  rates, efficiencies and hit times are \<^typ>\<open>real\<close>. A position is the three-element
  array \<open>(x, y, z)\<close>; a module key is the pair \<open>(line_id, i)\<close>.
\<close>

type_synonym vec3 = "real \<times> real \<times> real"

datatype error = ValueError string | ZeroDivisionError string

record Module =
  pos :: vec3
  noise_rate :: real
  efficiency :: real
  key :: "int \<times> nat"

text \<open>\<open>Module.__init__(self, pos, key, noise_rate=1, efficiency=0.2)\<close>\<close>

definition Module_init :: "vec3 \<Rightarrow> int \<times> nat \<Rightarrow> real \<Rightarrow> real \<Rightarrow> Module" where
  "Module_init p k nr eff = \<lparr>pos = p, noise_rate = nr, efficiency = eff, key = k\<rparr>"

record Detector =
  modules :: "Module list"
  module_coords :: "vec3 list"
  module_efficiencies :: "real list"
  module_noise_rates :: "real list"
  outer_radius :: real
  outer_cylinder :: "real \<times> real"
  n_modules :: nat

section \<open>Trigger\<close>

text \<open>
  The event-time collection is ragged: one list of hit times per module.
  \<open>ak.count(event_times, axis=1)\<close> gives the number of entries of every inner list;
  \<open>ak.sum\<close> of a boolean array adds one for every true entry.
\<close>

definition ak_count_axis1 :: "real list list \<Rightarrow> int list" where
  "ak_count_axis1 event_times = map (\<lambda>ts. int (length ts)) event_times"

definition ak_sum_bool :: "bool list \<Rightarrow> int" where
  "ak_sum_bool bs = sum_list (map (\<lambda>b. if b then 1 else 0) bs)"

definition trigger :: "Detector \<Rightarrow> real list list \<Rightarrow> int \<Rightarrow> int \<Rightarrow> bool" where
  "trigger det event_times mod_thresh phot_thres =
     (let hits_per_module = ak_count_axis1 event_times
      in if ak_sum_bool (map (\<lambda>h. h > phot_thres) hits_per_module) > mod_thresh
         then True else False)"

text \<open>The number of modules whose hit count exceeds the photon threshold, as a set of indices.\<close>

definition qualifying :: "real list list \<Rightarrow> int \<Rightarrow> nat set" where
  "qualifying event_times phot_thres =
     {i. i < length event_times \<and> int (length (event_times ! i)) > phot_thres}"

text \<open>A detector value used to instantiate the theorems below.\<close>

definition det0 :: Detector where
  "det0 = \<lparr>modules = [Module_init (0, 0, 0) (0, 0) 1 (1/5)],
          module_coords = [(0, 0, 0)],
          module_efficiencies = [1/5],
          module_noise_rates = [1],
          outer_radius = 0,
          outer_cylinder = (0, 0),
          n_modules = 1\<rparr>"

text \<open>
  The collections of the worked example: nine, respectively eight, modules with six hits
  each, the remaining modules without hits.
\<close>

definition hits6 :: "real list" where
  "hits6 = [1, 2, 3, 4, 5, 6]"

definition ev9 :: "real list list" where
  "ev9 = [hits6, hits6, hits6, hits6, hits6, hits6, hits6, hits6, hits6, []]"

definition ev8 :: "real list list" where
  "ev8 = [hits6, hits6, hits6, hits6, hits6, hits6, hits6, hits6, [], []]"

section \<open>The random source\<close>

text \<open>
  The generator is passed explicitly and returned advanced. Its state is a cursor into
  the stream \<open>src\<close> of raw doubles it produces, each in the half-open interval from 0 to
  1. The Poisson sampler of the library is not part of this module: \<open>counts g i lam\<close> is
  the variate it returns for a positive mean \<open>lam\<close> when the generator stands at \<open>i\<close>.
\<close>

record rng =
  src :: "nat \<Rightarrow> real"
  counts :: "nat \<Rightarrow> real \<Rightarrow> nat"
  cursor :: nat

definition rng_ok :: "rng \<Rightarrow> bool" where
  "rng_ok g = (\<forall>i. 0 \<le> src g i \<and> src g i < 1)"

definition advance :: "nat \<Rightarrow> rng \<Rightarrow> rng" where
  "advance k g = g\<lparr>cursor := cursor g + k\<rparr>"

text \<open>\<open>rng.uniform(low, high)\<close>: one draw, \<open>low + (high - low) * u\<close>.\<close>

definition rng_uniform1 :: "real \<Rightarrow> real \<Rightarrow> rng \<Rightarrow> real \<times> rng" where
  "rng_uniform1 low high g = (low + (high - low) * src g (cursor g), advance 1 g)"

text \<open>\<open>rng.uniform(low, high, size=n)\<close>: \<open>n\<close> draws in order; a negative size is refused.\<close>

definition rng_uniform :: "real \<Rightarrow> real \<Rightarrow> int \<Rightarrow> rng \<Rightarrow> error + (real list \<times> rng)" where
  "rng_uniform low high sz g =
     (if sz < 0 then Inl (ValueError ''negative dimensions are not allowed'')
      else Inr (map (\<lambda>i. low + (high - low) * src g (cursor g + i)) [0..<nat sz],
                advance (nat sz) g))"

text \<open>
  \<open>rng.choice([a, b], replace=True, size=n)\<close>: one generator output per element decides
  between the two entries; the model reads the decision off the raw draw.
\<close>

definition rng_choice2 :: "real \<Rightarrow> real \<Rightarrow> int \<Rightarrow> rng \<Rightarrow> error + (real list \<times> rng)" where
  "rng_choice2 a b sz g =
     (if sz < 0 then Inl (ValueError ''negative dimensions are not allowed'')
      else Inr (map (\<lambda>i. if src g (cursor g + i) < 1/2 then a else b) [0..<nat sz],
                advance (nat sz) g))"

text \<open>
  \<open>rng.poisson(lam)\<close>: a negative mean is refused, the mean 0 gives 0 without touching
  the generator, a positive mean gives the library's variate.
\<close>

definition rng_poisson :: "real \<Rightarrow> rng \<Rightarrow> error + (nat \<times> rng)" where
  "rng_poisson lam g =
     (if lam < 0 then Inl (ValueError ''lam < 0'')
      else if lam = 0 then Inr (0, g)
      else Inr (counts g (cursor g) lam, advance 1 g))"

text \<open>
  \<open>scipy.stats.gamma.rvs(a, loc, scale, random_state=rng)\<close> for the shape \<open>a = 1\<close>: the
  standard variate of shape 1 is the standard exponential \<open>- ln (1 - u)\<close>, and the
  result is \<open>loc + scale * variate\<close>. The positional parameters after the shape are
  \<open>loc\<close> and then \<open>scale\<close>.
\<close>

definition standard_exponential :: "rng \<Rightarrow> real \<times> rng" where
  "standard_exponential g = (- ln (1 - src g (cursor g)), advance 1 g)"

definition gamma_rvs1 :: "real \<Rightarrow> real \<Rightarrow> rng \<Rightarrow> real \<times> rng" where
  "gamma_rvs1 loc scale g =
     (case standard_exponential g of (e, g') \<Rightarrow> (loc + scale * e, g'))"

section \<open>Array helpers\<close>

definition norm3 :: "vec3 \<Rightarrow> real" where
  "norm3 p = (case p of (x, y, z) \<Rightarrow> sqrt (x\<^sup>2 + y\<^sup>2 + z\<^sup>2))"

definition norm_xy :: "vec3 \<Rightarrow> real" where
  "norm_xy p = (case p of (x, y, z) \<Rightarrow> sqrt (x\<^sup>2 + y\<^sup>2))"

definition zcoord :: "vec3 \<Rightarrow> real" where
  "zcoord p = (case p of (x, y, z) \<Rightarrow> z)"

text \<open>\<open>a.max()\<close> of a one-dimensional array; an empty array has no maximum.\<close>

fun np_max :: "real list \<Rightarrow> error + real" where
  "np_max [] =
     Inl (ValueError ''zero-size array to reduction operation maximum which has no identity'')"
| "np_max (x # xs) = Inr (fold max xs x)"

text \<open>\<open>np.vstack\<close> of a list of rows; an empty list is refused.\<close>

definition np_vstack :: "vec3 list \<Rightarrow> error + vec3 list" where
  "np_vstack rows =
     (if rows = [] then Inl (ValueError ''need at least one array to concatenate'')
      else Inr rows)"

text \<open>
  \<open>np.empty((n, 3))\<close>: \<open>n\<close> rows of unspecified content, here the value \<open>junk\<close>.
\<close>

definition np_empty :: "real \<Rightarrow> nat \<Rightarrow> vec3 list" where
  "np_empty junk n = replicate n (junk, junk, junk)"

definition set_col :: "nat \<Rightarrow> real \<Rightarrow> vec3 \<Rightarrow> vec3" where
  "set_col c v p = (case p of (x, y, z) \<Rightarrow>
     if c = 0 then (v, y, z) else if c = 1 then (x, v, z) else (x, y, v))"

text \<open>
  \<open>samples[mask, c] = vals\<close>: the rows selected by the mask take the values in order;
  \<open>xs[mask]\<close> keeps the selected entries. \<open>samples[:, c] = vals\<close> selects every row.
\<close>

fun assign_mask :: "bool list \<Rightarrow> nat \<Rightarrow> real list \<Rightarrow> vec3 list \<Rightarrow> vec3 list" where
  "assign_mask (True # m) c (v # vs) (s # ss) = set_col c v s # assign_mask m c vs ss"
| "assign_mask (False # m) c vs (s # ss) = s # assign_mask m c vs ss"
| "assign_mask m c vs ss = ss"

fun select_mask :: "bool list \<Rightarrow> 'a list \<Rightarrow> 'a list" where
  "select_mask (b # m) (x # xs) = (if b then x # select_mask m xs else select_mask m xs)"
| "select_mask m xs = []"

definition assign_all :: "nat \<Rightarrow> real list \<Rightarrow> vec3 list \<Rightarrow> vec3 list" where
  "assign_all c vals samples = assign_mask (replicate (length samples) True) c vals samples"

text \<open>
  \<open>np.linspace(start, stop, num)\<close> with the end point included: \<open>num\<close> values
  \<open>start + i * step\<close> with \<open>step = (stop - start) / (num - 1)\<close>, the last one set to
  \<open>stop\<close>; a negative \<open>num\<close> is refused.
\<close>

definition np_linspace :: "real \<Rightarrow> real \<Rightarrow> int \<Rightarrow> error + real list" where
  "np_linspace start stop num =
     (if num < 0 then Inl (ValueError ''Number of samples must be non-negative.'')
      else
        let n = nat num;
            dv = num - 1;
            delta = stop - start;
            y = map real [0..<n];
            y = (if dv > 0 then
                   (let step = delta / real_of_int dv
                    in if step = 0 then map (\<lambda>v. v / real_of_int dv * delta) y
                       else map (\<lambda>v. v * step) y)
                 else map (\<lambda>v. v * delta) y);
            y = map (\<lambda>v. v + start) y;
            y = (if num > 1 then y[n - 1 := stop] else y)
        in Inr y)"

section \<open>Detector\<close>

text \<open>\<open>Detector.__init__(self, modules)\<close>\<close>

definition Detector_init :: "Module list \<Rightarrow> error + Detector" where
  "Detector_init ms =
     (case np_vstack (map pos ms) of Inl e \<Rightarrow> Inl e | Inr coords \<Rightarrow>
      case np_max (map norm3 coords) of Inl e \<Rightarrow> Inl e | Inr radius \<Rightarrow>
      case np_max (map norm_xy coords) of Inl e \<Rightarrow> Inl e | Inr cyl_radius \<Rightarrow>
      case np_max (map zcoord coords) of Inl e \<Rightarrow> Inl e | Inr zmax \<Rightarrow>
        Inr \<lparr>modules = ms,
             module_coords = coords,
             module_efficiencies = map efficiency ms,
             module_noise_rates = map noise_rate ms,
             outer_radius = radius,
             outer_cylinder = (cyl_radius, 2 * \<bar>zmax\<bar>),
             n_modules = length ms\<rparr>)"

section \<open>Geometry builders\<close>

text \<open>
  The loop of \<open>make_line\<close> over \<open>enumerate(np.linspace(...))\<close>: one module and one draw
  of the noise rate per position, the generator threaded through.
\<close>

fun make_line_loop ::
  "real \<Rightarrow> real \<Rightarrow> rng \<Rightarrow> real \<Rightarrow> int \<Rightarrow> real \<Rightarrow> (nat \<times> real) list \<Rightarrow> Module list \<times> rng" where
  "make_line_loop x y g baseline_noise_rate line_id eff [] = ([], g)"
| "make_line_loop x y g baseline_noise_rate line_id eff ((i, pos_z) # rest) =
     (case gamma_rvs1 0.25 1 g of (d, g1) \<Rightarrow>
        let noise = d * baseline_noise_rate;
            m = Module_init (x, y, pos_z) (line_id, i) noise eff
        in case make_line_loop x y g1 baseline_noise_rate line_id eff rest of
             (ms, g2) \<Rightarrow> (m # ms, g2))"

definition make_line ::
  "real \<Rightarrow> real \<Rightarrow> int \<Rightarrow> real \<Rightarrow> rng \<Rightarrow> real \<Rightarrow> int \<Rightarrow> real \<Rightarrow> error + (Module list \<times> rng)" where
  "make_line x y n_z dist_z g baseline_noise_rate line_id eff =
     (case np_linspace (- dist_z * real_of_int n_z / 2) (dist_z * real_of_int n_z / 2) n_z of
        Inl e \<Rightarrow> Inl e
      | Inr zs \<Rightarrow> Inr (make_line_loop x y g baseline_noise_rate line_id eff (enumerate 0 zs)))"

section \<open>Samplers\<close>

definition sample_cylinder_volume ::
  "real \<Rightarrow> real \<Rightarrow> real \<Rightarrow> int \<Rightarrow> rng \<Rightarrow> error + (vec3 list \<times> rng)" where
  "sample_cylinder_volume junk height radius n g =
     (case rng_uniform 0 (2 * pi) n g of Inl e \<Rightarrow> Inl e | Inr (theta, g1) \<Rightarrow>
      case rng_uniform 0 1 n g1 of Inl e \<Rightarrow> Inl e | Inr (u, g2) \<Rightarrow>
        let r = map (\<lambda>v. radius * sqrt v) u;
            samples = np_empty junk (nat n);
            samples = assign_all 0 (map2 (\<lambda>a t. a * sin t) r theta) samples;
            samples = assign_all 1 (map2 (\<lambda>a t. a * cos t) r theta) samples
        in case rng_uniform (- height / 2) (height / 2) n g2 of Inl e \<Rightarrow> Inl e
           | Inr (z, g3) \<Rightarrow> Inr (assign_all 2 z samples, g3))"

definition sample_cylinder_surface ::
  "real \<Rightarrow> real \<Rightarrow> real \<Rightarrow> int \<Rightarrow> rng \<Rightarrow> error + (vec3 list \<times> rng)" where
  "sample_cylinder_surface junk height radius n g =
     (let side_area = 2 * pi * radius * height;
          top_area = 2 * pi * radius\<^sup>2
      in if top_area + side_area = 0 then Inl (ZeroDivisionError ''float division by zero'')
         else
           let ratio = top_area / (top_area + side_area)
           in case rng_uniform 0 1 n g of Inl e \<Rightarrow> Inl e | Inr (u, g1) \<Rightarrow>
              let is_top = map (\<lambda>v. v < ratio) u;
                  n_is_top = int (length (filter id is_top));
                  samples = np_empty junk (nat n)
              in case rng_uniform 0 (2 * pi) n g1 of Inl e \<Rightarrow> Inl e | Inr (theta, g2) \<Rightarrow>
                 case rng_uniform 0 1 n_is_top g2 of Inl e \<Rightarrow> Inl e | Inr (w, g3) \<Rightarrow>
                 let r = map (\<lambda>v. radius * sqrt v) w;
                     samples = assign_mask is_top 0
                                 (map2 (\<lambda>a t. a * sin t) r (select_mask is_top theta)) samples;
                     samples = assign_mask is_top 1
                                 (map2 (\<lambda>a t. a * cos t) r (select_mask is_top theta)) samples
                 in case rng_choice2 (- height / 2) (height / 2) n_is_top g3 of Inl e \<Rightarrow> Inl e
                    | Inr (ztop, g4) \<Rightarrow>
                    let samples = assign_mask is_top 2 ztop samples;
                        not_top = map Not is_top;
                        samples = assign_mask not_top 0
                                    (map (\<lambda>t. radius * sin t) (select_mask not_top theta)) samples;
                        samples = assign_mask not_top 1
                                    (map (\<lambda>t. radius * cos t) (select_mask not_top theta)) samples
                    in case rng_uniform (- height / 2) (height / 2) (n - n_is_top) g4 of
                         Inl e \<Rightarrow> Inl e
                       | Inr (zside, g5) \<Rightarrow> Inr (assign_mask not_top 2 zside samples, g5))"

definition sample_direction :: "real \<Rightarrow> int \<Rightarrow> rng \<Rightarrow> error + (vec3 list \<times> rng)" where
  "sample_direction junk n_samples g =
     (case rng_uniform (- 1) 1 n_samples g of Inl e \<Rightarrow> Inl e | Inr (cos_theta, g1) \<Rightarrow>
        let theta = map arccos cos_theta
        in case rng_uniform1 0 (2 * pi) g1 of (phi, g2) \<Rightarrow>
           let samples = np_empty junk (nat n_samples);
               samples = assign_all 0 (map (\<lambda>t. sin t * cos phi) theta) samples;
               samples = assign_all 1 (map (\<lambda>t. sin t * sin phi) theta) samples;
               samples = assign_all 2 (map cos theta) samples
           in Inr (samples, g2))"

section \<open>Noise generator\<close>

text \<open>
  The body of the loop of \<open>generate_noise\<close> for one module: a Poisson count with mean
  \<open>noise_rate * dT\<close>, then that many uniform times in the range.
\<close>

definition noise_body :: "Module \<Rightarrow> real \<times> real \<Rightarrow> rng \<Rightarrow> error + (real list \<times> rng)" where
  "noise_body m time_range g =
     (case time_range of (t0, t1) \<Rightarrow>
        let dT = t1 - t0
        in case rng_poisson (noise_rate m * dT) g of Inl e \<Rightarrow> Inl e
           | Inr (noise_amp, g1) \<Rightarrow> rng_uniform t0 t1 (int noise_amp) g1)"

fun noise_loop :: "Module list \<Rightarrow> real \<times> real \<Rightarrow> rng \<Rightarrow> error + (real list list \<times> rng)" where
  "noise_loop [] time_range g = Inr ([], g)"
| "noise_loop (m # ms) time_range g =
     (case noise_body m time_range g of Inl e \<Rightarrow> Inl e
      | Inr (times_det, g1) \<Rightarrow>
          (case noise_loop ms time_range g1 of Inl e \<Rightarrow> Inl e
           | Inr (rest, g2) \<Rightarrow> Inr (times_det # rest, g2)))"

text \<open>\<open>ak.sort\<close> sorts along the last axis: every module's own times, ascending.\<close>

definition generate_noise ::
  "Detector \<Rightarrow> real \<times> real \<Rightarrow> rng \<Rightarrow> error + (real list list \<times> rng)" where
  "generate_noise det time_range g =
     (case noise_loop (modules det) time_range g of Inl e \<Rightarrow> Inl e
      | Inr (all_times_det, g1) \<Rightarrow> Inr (map sort all_times_det, g1))"

section \<open>Reference values and example inputs\<close>

text \<open>The largest Euclidean norm over the positions of a module list.\<close>

definition max_norm :: "Module list \<Rightarrow> real" where
  "max_norm ms = Max ((\<lambda>m. norm3 (pos m)) ` set ms)"

text \<open>Two modules at \<open>(3, 4, 0)\<close> and \<open>(0, 0, 1)\<close>.\<close>

definition ms34 :: "Module list" where
  "ms34 = [Module_init (3, 4, 0) (0, 0) 1 (1/5), Module_init (0, 0, 1) (0, 1) 1 (1/5)]"

text \<open>Two modules on the axis, at \<open>z = -10\<close> and \<open>z = 1\<close>.\<close>

definition ms_asym :: "Module list" where
  "ms_asym = [Module_init (0, 0, -10) (0, 0) 1 (1/5), Module_init (0, 0, 1) (0, 1) 1 (1/5)]"

text \<open>A generator whose raw draws are all \<open>1/2\<close> and whose Poisson variates are all 0.\<close>

definition rng_half :: rng where
  "rng_half = \<lparr>src = (\<lambda>i. 1/2), counts = (\<lambda>i lam. 0), cursor = 0\<rparr>"

text \<open>A detector of two modules without noise.\<close>

definition det_quiet :: Detector where
  "det_quiet = \<lparr>modules = [Module_init (0, 0, -1) (0, 0) 0 (1/5), Module_init (0, 0, 1) (0, 1) 0 (1/5)],
          module_coords = [(0, 0, -1), (0, 0, 1)],
          module_efficiencies = [1/5, 1/5],
          module_noise_rates = [0, 0],
          outer_radius = 1,
          outer_cylinder = (0, 2),
          n_modules = 2\<rparr>"

text \<open>The \<open>i\<close>-th point of the linear interpolation from \<open>start\<close> to \<open>stop\<close> in \<open>num\<close> points.\<close>

definition linspace_value :: "real \<Rightarrow> real \<Rightarrow> int \<Rightarrow> nat \<Rightarrow> real" where
  "linspace_value start stop num i = start + real i * ((stop - start) / real_of_int (num - 1))"


text \<open>The unit vector with polar angle \<open>arccos c\<close> and azimuth \<open>phi\<close>.\<close>

definition direction :: "real \<Rightarrow> real \<Rightarrow> vec3" where
  "direction c phi = (sin (arccos c) * cos phi, sin (arccos c) * sin phi, cos (arccos c))"

text \<open>
  A point within the closed cylinder of the given height and radius about the \<open>z\<close>-axis,
  and a point on its lateral surface or on the plane of a cap.
\<close>

definition in_cylinder :: "real \<Rightarrow> real \<Rightarrow> vec3 \<Rightarrow> bool" where
  "in_cylinder height radius p = (norm_xy p \<le> radius \<and> \<bar>zcoord p\<bar> \<le> height / 2)"

definition on_cylinder :: "real \<Rightarrow> real \<Rightarrow> vec3 \<Rightarrow> bool" where
  "on_cylinder height radius p = (norm_xy p = radius \<or> \<bar>zcoord p\<bar> = height / 2)"

section \<open>Properties of the trigger\<close>

lemma ak_sum_bool_filter: "ak_sum_bool (map P xs) = int (length (filter P xs))"
  by (induction xs) (simp_all add: ak_sum_bool_def)

lemma length_filter_nth_card:
  "length (filter P xs) = card {i. i < length xs \<and> P (xs ! i)}"
  by (rule length_filter_conv_card)

lemma trigger_count:
  "trigger det event_times mod_thresh phot_thres
     = (mod_thresh < int (card (qualifying event_times phot_thres)))"
proof -
  have "ak_sum_bool (map (\<lambda>h. h > phot_thres) (ak_count_axis1 event_times))
          = int (length (filter (\<lambda>ts. int (length ts) > phot_thres) event_times))"
    by (simp add: ak_count_axis1_def ak_sum_bool_filter comp_def
        length_filter_map[symmetric] del: length_filter_map)
  also have "\<dots> = int (card (qualifying event_times phot_thres))"
    by (simp add: length_filter_nth_card qualifying_def)
  finally show ?thesis
    by (simp add: trigger_def Let_def)
qed

text \<open>
  Claim C1. For every detector, every ragged per-module collection of hit times and all
  integer thresholds, \<open>trigger\<close> returns true exactly when the number of modules whose
  hit count is strictly greater than \<open>phot_thres\<close> is strictly greater than
  \<open>mod_thresh\<close>. With nine qualifying modules and \<open>mod_thresh = 8\<close> the result is true,
  with exactly eight it is false.
\<close>

theorem trigger_iff_multiplicity:
  "(trigger det event_times mod_thresh phot_thres
      \<longleftrightarrow> mod_thresh < int (card (qualifying event_times phot_thres)))
   \<and> (card (qualifying event_times phot_thres) = 9 \<longrightarrow> trigger det event_times 8 phot_thres)
   \<and> (card (qualifying event_times phot_thres) = 8 \<longrightarrow> \<not> trigger det event_times 8 phot_thres)"
  by (simp add: trigger_count)

lemma card_qualifying:
  "card (qualifying event_times phot_thres)
     = length (filter (\<lambda>ts. int (length ts) > phot_thres) event_times)"
  by (simp add: length_filter_nth_card qualifying_def)

theorem trigger_iff_multiplicity_witness:
  "card (qualifying ev9 5) = 9 \<and> trigger det0 ev9 8 5
   \<and> card (qualifying ev8 5) = 8 \<and> \<not> trigger det0 ev8 8 5"
proof -
  have c9: "card (qualifying ev9 5) = 9"
    by (simp add: card_qualifying ev9_def hits6_def)
  have c8: "card (qualifying ev8 5) = 8"
    by (simp add: card_qualifying ev8_def hits6_def)
  from c9 c8 trigger_iff_multiplicity [of det0 ev9 8 5] trigger_iff_multiplicity [of det0 ev8 8 5]
  show ?thesis by simp
qed

text \<open>
  Claim C10. The result of \<open>trigger\<close> does not depend on its detector argument: for any
  two detectors and the same event times and thresholds the decisions agree.
\<close>

theorem trigger_independent_of_det:
  "trigger d1 event_times mod_thresh phot_thres = trigger d2 event_times mod_thresh phot_thres"
  by (simp add: trigger_def)

section \<open>Properties of the detector\<close>

lemma np_max_Max: "xs \<noteq> [] \<Longrightarrow> np_max xs = Inr (Max (set xs))"
  by (cases xs) (simp_all add: Max.set_eq_fold[symmetric])

lemma Detector_init_nonempty:
  assumes "ms \<noteq> []"
  shows "Detector_init ms =
    Inr \<lparr>modules = ms,
         module_coords = map pos ms,
         module_efficiencies = map efficiency ms,
         module_noise_rates = map noise_rate ms,
         outer_radius = Max (set (map norm3 (map pos ms))),
         outer_cylinder = (Max (set (map norm_xy (map pos ms))),
                           2 * \<bar>Max (set (map zcoord (map pos ms)))\<bar>),
         n_modules = length ms\<rparr>"
  using assms by (simp add: Detector_init_def np_vstack_def np_max_Max)

lemma norm3_3_4_0: "norm3 (3, 4, 0) = 5"
proof -
  have "sqrt 25 = sqrt (5\<^sup>2)" by simp
  then show ?thesis by (simp add: norm3_def del: real_sqrt_four)
qed

text \<open>
  Claim C7. For every detector built from a non-empty module list, \<open>outer_radius\<close> is
  the maximum Euclidean norm over the module positions (an upper bound of every norm,
  attained by some module) and \<open>n_modules\<close> is the number of modules given.
\<close>

theorem Detector_outer_radius:
  assumes "ms \<noteq> []"
  shows "\<exists>d. Detector_init ms = Inr d
        \<and> outer_radius d = max_norm ms
        \<and> list_all (\<lambda>m. norm3 (pos m) \<le> outer_radius d) ms
        \<and> list_ex (\<lambda>m. norm3 (pos m) = outer_radius d) ms
        \<and> n_modules d = length ms"
proof -
  let ?S = "(\<lambda>m. norm3 (pos m)) ` set ms"
  have fin: "finite ?S" and ne: "?S \<noteq> {}" using assms by auto
  have eq: "Max (set (map norm3 (map pos ms))) = max_norm ms"
    by (simp add: max_norm_def image_image)
  have ub: "list_all (\<lambda>m. norm3 (pos m) \<le> max_norm ms) ms"
    unfolding list_all_iff max_norm_def using fin by (auto intro: Max_ge)
  have "Max ?S \<in> ?S" using fin ne by (rule Max_in)
  then have att: "list_ex (\<lambda>m. norm3 (pos m) = max_norm ms) ms"
    unfolding list_ex_iff max_norm_def by auto
  show ?thesis
    using Detector_init_nonempty[OF assms] eq ub att by simp
qed

theorem Detector_outer_radius_witness:
  "ms34 \<noteq> [] \<and> (\<exists>d. Detector_init ms34 = Inr d \<and> outer_radius d = 5 \<and> n_modules d = 2)"
proof -
  have ne: "ms34 \<noteq> []" by (simp add: ms34_def)
  have mx: "max_norm ms34 = 5"
    by (simp add: max_norm_def ms34_def Module_init_def norm3_3_4_0 norm3_def)
  have len: "length ms34 = 2" by (simp add: ms34_def)
  from Detector_outer_radius [OF ne] mx len ne show ?thesis by auto
qed

text \<open>
  Claim C9. Constructing a detector from an empty module list fails: the stacking of
  the positions refuses an empty list with a \<open>ValueError\<close>, and no detector is returned.
\<close>

theorem Detector_init_empty_fails:
  "Detector_init [] = Inl (ValueError ''need at least one array to concatenate'')
   \<and> (\<nexists>d. Detector_init [] = Inr d)"
  by (simp add: Detector_init_def np_vstack_def)

text \<open>
  Claim C6, evaluated at two modules on the axis at \<open>z = -10\<close> and \<open>z = 1\<close>: the
  height of the outer cylinder is twice the absolute value of the largest
  \<open>z\<close>-coordinate, here 2, and the module at \<open>z = -10\<close> lies below \<open>- height / 2\<close>.
\<close>

theorem outer_cylinder_misses_module:
  "Detector_init ms_asym =
     Inr \<lparr>modules = ms_asym,
          module_coords = [(0, 0, -10), (0, 0, 1)],
          module_efficiencies = [1/5, 1/5],
          module_noise_rates = [1, 1],
          outer_radius = 10,
          outer_cylinder = (0, 2),
          n_modules = 2\<rparr>
   \<and> zcoord (pos (hd ms_asym)) = - 10
   \<and> \<not> (- (2::real) / 2 \<le> zcoord (pos (hd ms_asym)))"
  by (simp add: Detector_init_def ms_asym_def Module_init_def np_vstack_def
      norm3_def norm_xy_def zcoord_def)

text \<open>
  The radius of the outer cylinder does bound the horizontal distance of every module,
  and the largest \<open>z\<close>-coordinate does not exceed half the height.
\<close>

lemma outer_cylinder_radius_bound:
  assumes "Detector_init ms = Inr d" and "m \<in> set ms"
  shows "norm_xy (pos m) \<le> fst (outer_cylinder d)"
    and "zcoord (pos m) \<le> snd (outer_cylinder d) / 2"
proof -
  from assms have ne: "ms \<noteq> []" by auto
  have fin1: "finite (set (map norm_xy (map pos ms)))"
    and fin2: "finite (set (map zcoord (map pos ms)))" by simp_all
  have in1: "norm_xy (pos m) \<in> set (map norm_xy (map pos ms))"
    and in2: "zcoord (pos m) \<in> set (map zcoord (map pos ms))"
    using assms(2) by auto
  have d: "outer_cylinder d = (Max (set (map norm_xy (map pos ms))),
                              2 * \<bar>Max (set (map zcoord (map pos ms)))\<bar>)"
    using assms(1) Detector_init_nonempty[OF ne] by auto
  show "norm_xy (pos m) \<le> fst (outer_cylinder d)"
    using Max_ge[OF fin1 in1] by (simp add: d)
  show "zcoord (pos m) \<le> snd (outer_cylinder d) / 2"
    using Max_ge[OF fin2 in2] by (simp add: d)
qed

section \<open>Properties of the noise generator\<close>

lemma advance_0: "advance 0 g = g"
  by (simp add: advance_def)

lemma rng_uniform_0: "rng_uniform low high 0 g = Inr ([], g)"
  by (simp add: rng_uniform_def advance_0)

lemma noise_body_zero_draw:
  "rng_poisson (noise_rate m * (t1 - t0)) g = Inr (0, g1) \<Longrightarrow> noise_body m (t0, t1) g = Inr ([], g1)"
  by (simp add: noise_body_def rng_uniform_0)

lemma noise_body_zero_rate:
  "noise_rate m = 0 \<Longrightarrow> noise_body m (t0, t1) g = Inr ([], g)"
  by (rule noise_body_zero_draw) (simp add: rng_poisson_def)

lemma noise_loop_zero_rate:
  "list_all (\<lambda>m. noise_rate m = 0) ms \<Longrightarrow> noise_loop ms (t0, t1) g = Inr (replicate (length ms) [], g)"
  by (induction ms) (simp_all add: noise_body_zero_rate)

lemma noise_loop_append:
  "noise_loop (xs @ ys) tr g =
     (case noise_loop xs tr g of Inl e \<Rightarrow> Inl e
      | Inr (a, g1) \<Rightarrow> (case noise_loop ys tr g1 of Inl e \<Rightarrow> Inl e
                         | Inr (b, g2) \<Rightarrow> Inr (a @ b, g2)))"
  by (induction xs arbitrary: g) (auto split: sum.splits prod.splits)

lemma noise_loop_length:
  "noise_loop ms tr g = Inr (a, g') \<Longrightarrow> length a = length ms"
  by (induction ms arbitrary: g a) (auto split: sum.splits prod.splits)

lemma noise_loop_nth_zero_draw:
  assumes i: "i < length ms"
    and pre: "noise_loop (take i ms) (t0, t1) g = Inr (pre, gi)"
    and draw: "rng_poisson (noise_rate (ms ! i) * (t1 - t0)) gi = Inr (0, g1)"
    and all: "noise_loop ms (t0, t1) g = Inr (a, g')"
  shows "a ! i = []"
proof -
  have ms: "ms = take i ms @ (ms ! i # drop (Suc i) ms)"
    using i by (simp add: id_take_nth_drop[symmetric])
  have len: "length pre = i"
    using noise_loop_length[OF pre] i by simp
  from all have "noise_loop (take i ms @ (ms ! i # drop (Suc i) ms)) (t0, t1) g = Inr (a, g')"
    using ms by simp
  then obtain rest where "a = pre @ [] # rest"
    by (auto simp: noise_loop_append pre noise_body_zero_draw[OF draw] split: sum.splits prod.splits)
  then show ?thesis using len by (simp add: nth_append)
qed

text \<open>
  Claim C8. For a detector whose modules all have noise rate 0 and for every time range,
  \<open>generate_noise\<close> returns one empty sequence per module (and leaves the generator
  untouched). More generally, a module whose Poisson draw is 0 contributes an empty
  sequence: if the loop has reached module \<open>i\<close> with generator \<open>gi\<close> and the Poisson
  draw there is 0, entry \<open>i\<close> of the result is empty.
\<close>

theorem generate_noise_empty:
  "(list_all (\<lambda>m. noise_rate m = 0) (modules det)
      \<longrightarrow> generate_noise det (t0, t1) g = Inr (replicate (length (modules det)) [], g))
   \<and> (i < length (modules det)
      \<and> noise_loop (take i (modules det)) (t0, t1) g = Inr (pre, gi)
      \<and> rng_poisson (noise_rate (modules det ! i) * (t1 - t0)) gi = Inr (0, g1)
      \<and> generate_noise det (t0, t1) g = Inr (all_times, g')
      \<longrightarrow> all_times ! i = [])"
proof (intro conjI impI)
  assume "list_all (\<lambda>m. noise_rate m = 0) (modules det)"
  then show "generate_noise det (t0, t1) g = Inr (replicate (length (modules det)) [], g)"
    by (simp add: generate_noise_def noise_loop_zero_rate)
next
  assume h: "i < length (modules det)
      \<and> noise_loop (take i (modules det)) (t0, t1) g = Inr (pre, gi)
      \<and> rng_poisson (noise_rate (modules det ! i) * (t1 - t0)) gi = Inr (0, g1)
      \<and> generate_noise det (t0, t1) g = Inr (all_times, g')"
  then obtain a where a: "noise_loop (modules det) (t0, t1) g = Inr (a, g')"
    and at: "all_times = map sort a"
    by (auto simp: generate_noise_def split: sum.splits prod.splits)
  from h a have "a ! i = []" by (blast intro: noise_loop_nth_zero_draw)
  moreover have "i < length a" using noise_loop_length[OF a] h by simp
  ultimately show "all_times ! i = []" by (simp add: at)
qed

theorem generate_noise_empty_witness:
  "generate_noise det_quiet (0, 100) rng_half = Inr ([[], []], rng_half)
   \<and> noise_rate (modules det0 ! 0) = 1
   \<and> rng_poisson (noise_rate (modules det0 ! 0) * (100 - 0)) rng_half
       = Inr (0, advance 1 rng_half)
   \<and> generate_noise det0 (0, 100) rng_half = Inr ([[]], advance 1 rng_half)
   \<and> [[]] ! 0 = ([] :: real list)"
proof -
  have q: "list_all (\<lambda>m. noise_rate m = 0) (modules det_quiet)"
    by (simp add: det_quiet_def Module_init_def)
  have l: "length (modules det_quiet) = 2" by (simp add: det_quiet_def)
  have r: "noise_rate (modules det0 ! 0) = 1" by (simp add: det0_def Module_init_def)
  have i: "0 < length (modules det0)" by (simp add: det0_def)
  have t: "noise_loop (take 0 (modules det0)) (0, 100) rng_half = Inr ([], rng_half)" by simp
  have p: "rng_poisson (noise_rate (modules det0 ! 0) * (100 - 0)) rng_half
             = Inr (0, advance 1 rng_half)"
    by (simp add: det0_def Module_init_def rng_poisson_def rng_half_def)
  have g: "generate_noise det0 (0, 100) rng_half = Inr ([[]], advance 1 rng_half)"
    by (simp add: generate_noise_def det0_def Module_init_def noise_body_def rng_poisson_def
        rng_half_def rng_uniform_0)
  have a: "generate_noise det_quiet (0, 100) rng_half = Inr ([[], []], rng_half)"
    using generate_noise_empty [of det_quiet 0 100 rng_half] q l
    by (simp add: eval_nat_numeral)
  have b: "[[]] ! 0 = ([] :: real list)"
    using generate_noise_empty [of det0 0 100 rng_half 0 "[]" rng_half "advance 1 rng_half"
        "[[]]" "advance 1 rng_half"] i t p g
    by blast
  from a r p g b show ?thesis by blast
qed

section \<open>Properties of the geometry builders\<close>

lemma np_linspace_closed:
  assumes "2 \<le> num"
  shows "np_linspace start stop num = Inr (map (linspace_value start stop num) [0..<nat num])"
proof -
  let ?n = "nat num"
  let ?step = "(stop - start) / real_of_int (num - 1)"
  let ?y = "map (\<lambda>v. v + start) (map (\<lambda>v. v * ?step) (map real [0..<?n]))"
  have dv: "real_of_int (num - 1) \<noteq> 0" using assms by simp
  have zero: "?step = 0 \<Longrightarrow> map (\<lambda>v. v / real_of_int (num - 1) * (stop - start)) (map real [0..<?n])
                = map (\<lambda>v. v * ?step) (map real [0..<?n])"
    by simp
  have y: "?y = map (linspace_value start stop num) [0..<?n]"
    by (simp add: linspace_value_def comp_def add.commute)
  have "real (?n - 1) = real_of_int (num - 1)" using assms by simp
  then have lst: "linspace_value start stop num (?n - 1) = stop"
    using dv by (simp add: linspace_value_def)
  have upd: "(map (linspace_value start stop num) [0..<?n])[?n - 1 := stop]
               = map (linspace_value start stop num) [0..<?n]"
    using lst assms by (simp add: list_eq_iff_nth_eq nth_list_update)
  have "np_linspace start stop num = Inr (?y[?n - 1 := stop])"
    using assms zero by (simp add: np_linspace_def Let_def)
  then show ?thesis by (simp only: y upd)
qed

lemma src_advance [simp]: "src (advance k g) = src g"
  and cursor_advance [simp]: "cursor (advance k g) = cursor g + k"
  by (simp_all add: advance_def)

lemma advance_advance [simp]: "advance j (advance k g) = advance (k + j) g"
  by (simp add: advance_def add.assoc)

lemma gamma_rvs1_eq:
  "gamma_rvs1 loc scale g = (loc + scale * (- ln (1 - src g (cursor g))), advance 1 g)"
  by (simp add: gamma_rvs1_def standard_exponential_def)

lemma make_line_loop_Cons:
  "make_line_loop x y g b lid eff ((i, z) # rest) =
     (Module_init (x, y, z) (lid, i) ((1/4 + - ln (1 - src g (cursor g))) * b) eff
        # fst (make_line_loop x y (advance 1 g) b lid eff rest),
      snd (make_line_loop x y (advance 1 g) b lid eff rest))"
  by (simp add: gamma_rvs1_eq Let_def case_prod_beta)

lemma make_line_loop_length:
  "length (fst (make_line_loop x y g b lid eff ps)) = length ps"
proof (induction ps arbitrary: g)
  case Nil
  show ?case by simp
next
  case (Cons p ps)
  obtain i z where p: "p = (i, z)" by (cases p)
  show ?case unfolding p make_line_loop_Cons by (simp add: Cons.IH)
qed

lemma make_line_loop_rng:
  "snd (make_line_loop x y g b lid eff ps) = advance (length ps) g"
proof (induction ps arbitrary: g)
  case Nil
  show ?case by (simp add: advance_def)
next
  case (Cons p ps)
  obtain i z where p: "p = (i, z)" by (cases p)
  show ?case unfolding p make_line_loop_Cons by (simp add: Cons.IH)
qed

lemma make_line_loop_nth:
  "j < length ps \<Longrightarrow>
     fst (make_line_loop x y g b lid eff ps) ! j
       = Module_init (x, y, snd (ps ! j)) (lid, fst (ps ! j))
           ((1/4 + - ln (1 - src g (cursor g + j))) * b) eff"
proof (induction ps arbitrary: g j)
  case Nil
  then show ?case by simp
next
  case (Cons p ps)
  obtain i z where p: "p = (i, z)" by (cases p)
  show ?case
  proof (cases j)
    case 0
    then show ?thesis unfolding p make_line_loop_Cons by simp
  next
    case (Suc k)
    with Cons.prems have k: "k < length ps" by simp
    show ?thesis
      unfolding p make_line_loop_Cons Suc
      using Cons.IH[OF k, of "advance 1 g"] by simp
  qed
qed

lemma make_line_closed:
  assumes "2 \<le> n_z"
  shows "make_line x y n_z dist_z g b lid eff =
     Inr (make_line_loop x y g b lid eff
            (enumerate 0 (map (linspace_value (- dist_z * real_of_int n_z / 2)
                                 (dist_z * real_of_int n_z / 2) n_z) [0..<nat n_z])))"
  by (simp add: make_line_def np_linspace_closed[OF assms])

text \<open>
  Claim C4. For a positive spacing \<open>dist_z\<close> and \<open>n_z \<ge> 2\<close>, \<open>make_line\<close> returns exactly
  \<open>n_z\<close> modules at the fixed \<open>(x, y)\<close>; module \<open>i\<close> has the key \<open>(line_id, i)\<close> and the
  \<open>z\<close>-coordinate \<open>- dist_z * n_z / 2 + i * (dist_z * n_z / (n_z - 1))\<close>, so the first is at
  \<open>- dist_z * n_z / 2\<close>, the last at \<open>dist_z * n_z / 2\<close>, and the coordinates are strictly
  increasing.
\<close>

theorem make_line_positions:
  assumes nz: "2 \<le> n_z" and dz: "0 < dist_z"
  shows "\<exists>ms g'. make_line x y n_z dist_z g b lid eff = Inr (ms, g')
     \<and> length ms = nat n_z
     \<and> (\<forall>i < nat n_z.
          pos (ms ! i) = (x, y, - dist_z * real_of_int n_z / 2
                                 + real i * (dist_z * real_of_int n_z / real_of_int (n_z - 1)))
          \<and> key (ms ! i) = (lid, i))
     \<and> zcoord (pos (hd ms)) = - dist_z * real_of_int n_z / 2
     \<and> zcoord (pos (last ms)) = dist_z * real_of_int n_z / 2
     \<and> sorted_wrt (<) (map (\<lambda>m. zcoord (pos m)) ms)"
proof -
  let ?start = "- dist_z * real_of_int n_z / 2"
  let ?stop = "dist_z * real_of_int n_z / 2"
  let ?step = "dist_z * real_of_int n_z / real_of_int (n_z - 1)"
  let ?zs = "map (linspace_value ?start ?stop n_z) [0..<nat n_z]"
  let ?r = "make_line_loop x y g b lid eff (enumerate 0 ?zs)"
  let ?ms = "fst ?r"
  have res: "make_line x y n_z dist_z g b lid eff = Inr (?ms, snd ?r)"
    by (simp add: make_line_closed[OF nz])
  have len: "length ?ms = nat n_z"
    by (simp add: make_line_loop_length)
  have step_pos: "0 < ?step" using nz dz by simp
  have nth: "?ms ! i = Module_init (x, y, ?start + real i * ?step) (lid, i)
                 ((1/4 + - ln (1 - src g (cursor g + i))) * b) eff" if "i < nat n_z" for i
    using that by (simp add: make_line_loop_nth nth_enumerate_eq linspace_value_def)
  have posi: "pos (?ms ! i) = (x, y, ?start + real i * ?step) \<and> key (?ms ! i) = (lid, i)"
    if "i < nat n_z" for i
    using nth[OF that] by (simp add: Module_init_def)
  have ne: "?ms \<noteq> []" using len nz by auto
  have first: "zcoord (pos (hd ?ms)) = ?start"
    using posi[of 0] nz ne by (simp add: hd_conv_nth zcoord_def)
  have "real (nat n_z - 1) = real_of_int (n_z - 1)" using nz by simp
  moreover have "real_of_int (n_z - 1) \<noteq> 0" using nz by simp
  ultimately have "?start + real (nat n_z - 1) * ?step = ?stop"
    by (simp add: field_simps)
  then have lst: "zcoord (pos (last ?ms)) = ?stop"
    using posi[of "nat n_z - 1"] nz ne len by (simp add: last_conv_nth zcoord_def)
  have srt: "sorted_wrt (<) (map (\<lambda>m. zcoord (pos m)) ?ms)"
    unfolding sorted_wrt_iff_nth_less
  proof (intro allI impI)
    fix i j assume ij: "i < j" and j: "j < length (map (\<lambda>m. zcoord (pos m)) ?ms)"
    then have i': "i < nat n_z" and j': "j < nat n_z" using len by simp_all
    have "real i < real j" using ij by simp
    then have "real i * ?step < real j * ?step" using step_pos by (rule mult_strict_right_mono)
    then show "map (\<lambda>m. zcoord (pos m)) ?ms ! i < map (\<lambda>m. zcoord (pos m)) ?ms ! j"
      using posi[OF i'] posi[OF j'] i' j' len by (simp add: zcoord_def)
  qed
  show ?thesis
    using res len posi first lst srt by blast
qed



lemma ln_half: "ln (1/2 :: real) = - ln 2"
  by (simp add: ln_div)

lemma make_line_example:
  "make_line 1 2 3 2 rng_half 1 7 (1/5) =
     Inr ([Module_init (1, 2, -3) (7, 0) (1/4 + ln 2) (1/5),
           Module_init (1, 2, 0) (7, 1) (1/4 + ln 2) (1/5),
           Module_init (1, 2, 3) (7, 2) (1/4 + ln 2) (1/5)], advance 3 rng_half)"
  by (simp add: make_line_def np_linspace_def Let_def eval_nat_numeral enumerate_eq_zip
      gamma_rvs1_eq advance_def rng_half_def ln_half)

theorem make_line_positions_witness:
  "(2::int) \<le> 3 \<and> (0::real) < 2
   \<and> map pos (fst (projr (make_line 1 2 3 2 rng_half 1 7 (1/5))))
       = [(1, 2, -3), (1, 2, 0), (1, 2, 3)]
   \<and> map key (fst (projr (make_line 1 2 3 2 rng_half 1 7 (1/5))))
       = [(7, 0), (7, 1), (7, 2)]
   \<and> sorted_wrt (<) (map (\<lambda>m. zcoord (pos m)) (fst (projr (make_line 1 2 3 2 rng_half 1 7 (1/5)))))"
proof -
  have a: "(2::int) \<le> 3" and b: "(0::real) < 2" by simp_all
  from make_line_positions [OF a b, of 1 2 rng_half 1 7 "1/5"]
  have "sorted_wrt (<) (map (\<lambda>m. zcoord (pos m)) (fst (projr (make_line 1 2 3 2 rng_half 1 7 (1/5)))))"
    by auto
  moreover have "map pos (fst (projr (make_line 1 2 3 2 rng_half 1 7 (1/5))))
       = [(1, 2, -3), (1, 2, 0), (1, 2, 3)]"
    by (simp add: make_line_example Module_init_def)
  moreover have "map key (fst (projr (make_line 1 2 3 2 rng_half 1 7 (1/5))))
       = [(7, 0), (7, 1), (7, 2)]"
    by (simp add: make_line_example Module_init_def eval_nat_numeral)
  ultimately show ?thesis by simp
qed





section \<open>Properties of the samplers\<close>

lemma assign_mask_all_True:
  "length vals = length ss \<Longrightarrow>
     assign_mask (replicate (length ss) True) c vals ss = map2 (set_col c) vals ss"
  by (induction vals ss rule: list_induct2) simp_all

lemma assign_all_map2:
  "length vals = length ss \<Longrightarrow> assign_all c vals ss = map2 (set_col c) vals ss"
  by (simp add: assign_all_def assign_mask_all_True)

lemma length_assign_all:
  "length vals = length ss \<Longrightarrow> length (assign_all c vals ss) = length ss"
  by (simp add: assign_all_map2)

lemma assign_all_columns:
  assumes "length vx = n" "length vy = n" "length vz = n"
  shows "assign_all 2 vz (assign_all 1 vy (assign_all 0 vx (np_empty junk n)))
           = map (\<lambda>i. (vx ! i, vy ! i, vz ! i)) [0..<n]"
proof -
  have l0: "length (np_empty junk n) = n" by (simp add: np_empty_def)
  have l1: "length (assign_all 0 vx (np_empty junk n)) = n"
    using assms l0 by (simp add: length_assign_all)
  have l2: "length (assign_all 1 vy (assign_all 0 vx (np_empty junk n))) = n"
    using assms l1 by (simp add: length_assign_all)
  show ?thesis
    using assms l0 l1 l2
    by (simp add: assign_all_map2 list_eq_iff_nth_eq np_empty_def set_col_def)
qed

lemma rng_uniform_nonneg:
  "0 \<le> n \<Longrightarrow> rng_uniform low high n g
     = Inr (map (\<lambda>i. low + (high - low) * src g (cursor g + i)) [0..<nat n], advance (nat n) g)"
  by (simp add: rng_uniform_def)

lemma uniform_range:
  assumes "rng_ok g" "low \<le> high"
  shows "low \<le> low + (high - low) * src g k" and "low + (high - low) * src g k \<le> high"
proof -
  from assms(1) have u: "0 \<le> src g k" "src g k < 1" by (simp_all add: rng_ok_def)
  have d: "0 \<le> high - low" using assms(2) by simp
  show "low \<le> low + (high - low) * src g k" using u d by simp
  have "(high - low) * src g k \<le> (high - low) * 1"
    using u d by (intro mult_left_mono) simp_all
  then show "low + (high - low) * src g k \<le> high" by simp
qed

lemma uniform_range_strict:
  assumes "rng_ok g" "low < high"
  shows "low + (high - low) * src g k < high"
proof -
  from assms(1) have u: "src g k < 1" by (simp add: rng_ok_def)
  have "(high - low) * src g k < (high - low) * 1"
    using u assms(2) by (intro mult_strict_left_mono) simp_all
  then show ?thesis by simp
qed

lemma norm3_direction: "norm3 (direction c phi) = 1"
proof -
  have "(sin (arccos c) * cos phi)\<^sup>2 + (sin (arccos c) * sin phi)\<^sup>2 + (cos (arccos c))\<^sup>2
          = (sin (arccos c))\<^sup>2 * ((cos phi)\<^sup>2 + (sin phi)\<^sup>2) + (cos (arccos c))\<^sup>2"
    by (simp only: power_mult_distrib distrib_left)
  also have "\<dots> = 1"
    by (simp only: sin_cos_squared_add2 mult_1_right sin_cos_squared_add)
  finally show ?thesis by (simp add: norm3_def direction_def)
qed

text \<open>
  Claim C3. For every number of samples, \<open>sample_direction\<close> returns the vectors
  \<open>(sin \<theta> cos \<phi>, sin \<theta> sin \<phi>, cos \<theta>)\<close> with \<open>\<theta>\<close> the arc cosine of a draw from the
  interval from -1 to 1, one draw per sample, and with a single azimuth \<open>\<phi>\<close>, drawn once
  after them and shared by all samples; every vector has norm 1.
\<close>

theorem sample_direction_unit:
  assumes ok: "rng_ok g" and n: "0 \<le> n_samples"
  shows "\<exists>cos_theta phi g'.
           rng_uniform (- 1) 1 n_samples g = Inr (cos_theta, advance (nat n_samples) g)
         \<and> rng_uniform1 0 (2 * pi) (advance (nat n_samples) g) = (phi, g')
         \<and> sample_direction junk n_samples g = Inr (map (\<lambda>c. direction c phi) cos_theta, g')
         \<and> length cos_theta = nat n_samples
         \<and> list_all (\<lambda>c. - 1 \<le> c \<and> c < 1) cos_theta
         \<and> 0 \<le> phi \<and> phi < 2 * pi
         \<and> list_all (\<lambda>p. norm3 p = 1) (map (\<lambda>c. direction c phi) cos_theta)"
proof -
  let ?k = "nat n_samples"
  let ?cs = "map (\<lambda>i. - 1 + (1 - (- 1)) * src g (cursor g + i)) [0..<?k]"
  let ?g1 = "advance ?k g"
  let ?phi = "0 + (2 * pi - 0) * src ?g1 (cursor ?g1)"
  let ?g2 = "advance 1 ?g1"
  have u: "rng_uniform (- 1) 1 n_samples g = Inr (?cs, ?g1)"
    using n by (rule rng_uniform_nonneg)
  have p: "rng_uniform1 0 (2 * pi) ?g1 = (?phi, ?g2)"
    by (simp add: rng_uniform1_def)
  have ok1: "rng_ok ?g1" using ok by (simp add: rng_ok_def)
  have cols: "assign_all 2 (map cos (map arccos ?cs))
               (assign_all 1 (map (\<lambda>t. sin t * sin ?phi) (map arccos ?cs))
                 (assign_all 0 (map (\<lambda>t. sin t * cos ?phi) (map arccos ?cs)) (np_empty junk ?k)))
             = map (\<lambda>c. direction c ?phi) ?cs"
    by (subst assign_all_columns) (simp_all add: list_eq_iff_nth_eq direction_def)
  have res: "sample_direction junk n_samples g = Inr (map (\<lambda>c. direction c ?phi) ?cs, ?g2)"
    unfolding sample_direction_def by (simp only: u p sum.case prod.case Let_def cols)
  have rng: "list_all (\<lambda>c. - 1 \<le> c \<and> c < 1) ?cs"
    unfolding list_all_iff
    using uniform_range(1)[OF ok, of "- 1" 1] uniform_range_strict[OF ok, of "- 1" 1] by auto
  have phi0: "0 \<le> ?phi" using uniform_range(1)[OF ok1, of 0 "2 * pi"] by simp
  have phi1: "?phi < 2 * pi" using uniform_range_strict[OF ok1, of 0 "2 * pi"] by simp
  have unit: "list_all (\<lambda>p. norm3 p = 1) (map (\<lambda>c. direction c ?phi) ?cs)"
    by (simp add: list_all_iff norm3_direction)
  have len: "length ?cs = ?k" by simp
  show ?thesis
    using u p res len rng phi0 phi1 unit by blast
qed


theorem sample_direction_unit_witness:
  "rng_ok rng_half \<and> (0::int) \<le> 2
   \<and> sample_direction 0 2 rng_half = Inr ([(- 1, 0, 0), (- 1, 0, 0)], advance 3 rng_half)
   \<and> norm3 (- 1, 0, 0) = 1"
proof -
  have ok: "rng_ok rng_half" by (simp add: rng_ok_def rng_half_def)
  have n: "(0::int) \<le> 2" by simp
  from sample_direction_unit [OF ok n, of 0]
  obtain cos_theta phi g' where
    u: "rng_uniform (- 1) 1 2 rng_half = Inr (cos_theta, advance (nat 2) rng_half)"
    and p: "rng_uniform1 0 (2 * pi) (advance (nat 2) rng_half) = (phi, g')"
    and r: "sample_direction 0 2 rng_half = Inr (map (\<lambda>c. direction c phi) cos_theta, g')"
    and unit: "list_all (\<lambda>p. norm3 p = 1) (map (\<lambda>c. direction c phi) cos_theta)"
    by blast
  from u have cs: "cos_theta = [0, 0]"
    by (simp add: rng_uniform_def rng_half_def eval_nat_numeral)
  from p have phi: "phi = pi" and g': "g' = advance 3 rng_half"
    by (auto simp: rng_uniform1_def rng_half_def advance_def eval_nat_numeral)
  have d: "direction 0 pi = (- 1, 0, 0)" by (simp add: direction_def)
  from r unit ok show ?thesis by (simp add: cs phi g' d)
qed

subsection \<open>Cylinder samplers\<close>

lemma set_col_all: "set_col 2 c (set_col (Suc 0) b (set_col 0 a s)) = (a, b, c)"
  by (cases s) (simp add: set_col_def)

lemma assign3_rows:
  "length ss = length m \<Longrightarrow> length vx = length (filter id m) \<Longrightarrow> length vy = length vx
    \<Longrightarrow> length vz = length vx \<Longrightarrow> list_all P (zip vx (zip vy vz))
    \<Longrightarrow> list_all2 (\<lambda>(b, s) p. if b then P p else p = s) (zip m ss)
          (assign_mask m 2 vz (assign_mask m 1 vy (assign_mask m 0 vx ss)))"
proof (induction m arbitrary: ss vx vy vz)
  case Nil
  then show ?case by simp
next
  case (Cons b m)
  from Cons.prems(1) obtain s ss' where ss: "ss = s # ss'" and l: "length ss' = length m"
    by (cases ss) auto
  show ?case
  proof (cases b)
    case True
    with Cons.prems obtain a vx' where vx: "vx = a # vx'" by (cases vx) auto
    with Cons.prems obtain b' vy' where vy: "vy = b' # vy'" by (cases vy) auto
    from vx Cons.prems obtain c vz' where vz: "vz = c # vz'" by (cases vz) auto
    have "list_all2 (\<lambda>(b, s) p. if b then P p else p = s) (zip m ss')
          (assign_mask m 2 vz' (assign_mask m 1 vy' (assign_mask m 0 vx' ss')))"
      using Cons.prems True by (intro Cons.IH) (simp_all add: l vx vy vz)
    moreover have "P (a, b', c)" using Cons.prems(5) by (simp add: vx vy vz)
    ultimately show ?thesis
      by (simp add: True ss vx vy vz set_col_all)
  next
    case False
    have "list_all2 (\<lambda>(b, s) p. if b then P p else p = s) (zip m ss')
          (assign_mask m 2 vz (assign_mask m 1 vy (assign_mask m 0 vx ss')))"
      using Cons.prems False by (intro Cons.IH) (simp_all add: l)
    then show ?thesis by (simp add: False ss)
  qed
qed

lemma length_select_mask:
  "length xs = length m \<Longrightarrow> length (select_mask m xs) = length (filter id m)"
  by (induction m xs rule: select_mask.induct) simp_all

lemma length_filter_Not:
  "length (filter id (map Not m)) = length m - length (filter id m)"
proof (induction m)
  case Nil
  show ?case by simp
next
  case (Cons b m)
  have "length (filter id m) \<le> length m" by simp
  with Cons show ?case by (cases b) (simp_all add: Suc_diff_le)
qed

lemma norm_xy_polar: "norm_xy (r * sin t, r * cos t, z) = \<bar>r\<bar>"
proof -
  have "(r * sin t)\<^sup>2 + (r * cos t)\<^sup>2 = r\<^sup>2 * ((sin t)\<^sup>2 + (cos t)\<^sup>2)"
    by (simp only: power_mult_distrib distrib_left)
  also have "\<dots> = r\<^sup>2" by (simp only: sin_cos_squared_add mult_1_right)
  finally show ?thesis by (simp add: norm_xy_def)
qed

lemma disk_radius:
  assumes "0 \<le> radius" "0 \<le> u" "u < 1"
  shows "\<bar>radius * sqrt u\<bar> \<le> radius"
proof -
  have "sqrt u \<le> 1" using assms by simp
  then have "radius * sqrt u \<le> radius * 1" using assms(1) by (rule mult_left_mono)
  moreover have "0 \<le> radius * sqrt u" using assms by simp
  ultimately show ?thesis by simp
qed


lemma length_assign_mask: "length (assign_mask m c vs ss) = length ss"
  by (induction m c vs ss rule: assign_mask.induct) simp_all

lemma rng_uniform_InrD:
  assumes "rng_uniform low high n g = Inr (xs, g')"
  shows "0 \<le> n" and "length xs = nat n" and "g' = advance (nat n) g"
    and "xs = map (\<lambda>i. low + (high - low) * src g (cursor g + i)) [0..<nat n]"
  using assms by (auto simp: rng_uniform_def split: if_splits)

lemma rng_uniform_bounds:
  assumes "rng_uniform low high n g = Inr (xs, g')" and "rng_ok g" and "low \<le> high"
  shows "list_all (\<lambda>v. low \<le> v \<and> v \<le> high) xs"
  unfolding rng_uniform_InrD(4)[OF assms(1)] list_all_iff
  using uniform_range[OF assms(2,3)] by auto

lemma rng_uniform_unit:
  assumes "rng_uniform 0 1 n g = Inr (xs, g')" and "rng_ok g"
  shows "list_all (\<lambda>v. 0 \<le> v \<and> v < 1) xs"
  unfolding rng_uniform_InrD(4)[OF assms(1)] list_all_iff
  using assms(2) by (auto simp: rng_ok_def)

lemma rng_ok_advance [simp]: "rng_ok (advance k g) = rng_ok g"
  by (simp add: rng_ok_def)

lemma volume_rows:
  assumes r: "0 \<le> radius"
    and lt: "length theta = k" and lu: "length u = k" and lz: "length z = k"
    and u: "list_all (\<lambda>v. 0 \<le> v \<and> v < 1) u"
    and z: "list_all (\<lambda>v. - height / 2 \<le> v \<and> v \<le> height / 2) z"
  shows "list_all (in_cylinder height radius)
           (assign_all 2 z
             (assign_all 1 (map2 (\<lambda>a t. a * cos t) (map (\<lambda>v. radius * sqrt v) u) theta)
               (assign_all 0 (map2 (\<lambda>a t. a * sin t) (map (\<lambda>v. radius * sqrt v) u) theta)
                 (np_empty junk k))))"
proof -
  have "in_cylinder height radius
          (map2 (\<lambda>a t. a * sin t) (map (\<lambda>v. radius * sqrt v) u) theta ! i,
           map2 (\<lambda>a t. a * cos t) (map (\<lambda>v. radius * sqrt v) u) theta ! i, z ! i)"
    if "i < k" for i
  proof -
    from u that lu have ui: "0 \<le> u ! i" "u ! i < 1" by (simp_all add: list_all_length)
    from z that lz have zi: "- height / 2 \<le> z ! i" "z ! i \<le> height / 2"
      by (simp_all add: list_all_length)
    show ?thesis
      using that lt lu disk_radius[OF r ui] zi
      by (simp add: in_cylinder_def norm_xy_polar zcoord_def)
  qed
  then show ?thesis
    using lt lu lz by (subst assign_all_columns) (simp_all add: list_all_iff)
qed

lemma sample_cylinder_volume_inside:
  assumes h: "0 \<le> height" and r: "0 \<le> radius" and ok: "rng_ok g"
    and eq: "sample_cylinder_volume junk height radius n g = Inr (samples, g')"
  shows "list_all (in_cylinder height radius) samples" and "length samples = nat n"
proof -
  from eq obtain theta g1 u g2 z where
    t: "rng_uniform 0 (2 * pi) n g = Inr (theta, g1)"
    and u: "rng_uniform 0 1 n g1 = Inr (u, g2)"
    and z: "rng_uniform (- height / 2) (height / 2) n g2 = Inr (z, g')"
    and s: "samples = assign_all 2 z
             (assign_all 1 (map2 (\<lambda>a t. a * cos t) (map (\<lambda>v. radius * sqrt v) u) theta)
               (assign_all 0 (map2 (\<lambda>a t. a * sin t) (map (\<lambda>v. radius * sqrt v) u) theta)
                 (np_empty junk (nat n))))"
    by (auto simp only: sample_cylinder_volume_def Let_def split: sum.splits prod.splits)
  have ok1: "rng_ok g1" and ok2: "rng_ok g2"
    using ok rng_uniform_InrD(3)[OF t] rng_uniform_InrD(3)[OF u] by simp_all
  have hh: "- height / 2 \<le> height / 2" using h by simp
  show "list_all (in_cylinder height radius) samples"
    unfolding s
    by (rule volume_rows[OF r rng_uniform_InrD(2)[OF t] rng_uniform_InrD(2)[OF u]
          rng_uniform_InrD(2)[OF z] rng_uniform_unit[OF u ok1] rng_uniform_bounds[OF z ok2 hh]])
  show "length samples = nat n"
    unfolding s assign_all_def by (simp add: length_assign_mask np_empty_def)
qed


lemma rng_choice2_InrD:
  assumes "rng_choice2 a b n g = Inr (xs, g')"
  shows "0 \<le> n" and "length xs = nat n" and "g' = advance (nat n) g"
    and "list_all (\<lambda>v. v = a \<or> v = b) xs"
  using assms by (auto simp: rng_choice2_def list_all_iff split: if_splits)

lemma list_all_mono: "list_all P xs \<Longrightarrow> (\<And>x. P x \<Longrightarrow> Q x) \<Longrightarrow> list_all Q xs"
  by (simp add: list_all_iff)

lemma combine_rows:
  assumes A: "list_all2 (\<lambda>(b, s) p. if b then P p else p = s) (zip m S0) S1"
    and B: "list_all2 (\<lambda>(b, s) p. if b then Q p else p = s) (zip (map Not m) S1) S2"
    and l0: "length S0 = length m"
  shows "list_all (\<lambda>p. P p \<or> Q p) S2"
proof -
  from A l0 have l1: "length S1 = length m" by (simp add: list_all2_conv_all_nth)
  from B l1 have l2: "length S2 = length m" by (simp add: list_all2_conv_all_nth)
  have "P (S2 ! i) \<or> Q (S2 ! i)" if i: "i < length m" for i
  proof (cases "m ! i")
    case True
    from A i l0 l1 True have "P (S1 ! i)" by (simp add: list_all2_conv_all_nth)
    moreover from B i l1 l2 True have "S2 ! i = S1 ! i" by (simp add: list_all2_conv_all_nth)
    ultimately show ?thesis by simp
  next
    case False
    from B i l1 l2 False have "Q (S2 ! i)" by (simp add: list_all2_conv_all_nth)
    then show ?thesis by simp
  qed
  then show ?thesis using l2 by (simp add: list_all_length)
qed

lemma surface_rows:
  assumes r: "0 \<le> radius" and h: "0 \<le> height"
    and lm: "length is_top = k" and lt: "length theta = k"
    and lw: "length w = length (filter id is_top)"
    and lzt: "length ztop = length (filter id is_top)"
    and lzs: "length zside = k - length (filter id is_top)"
    and w: "list_all (\<lambda>v. 0 \<le> v \<and> v < 1) w"
    and zt: "list_all (\<lambda>v. v = - height / 2 \<or> v = height / 2) ztop"
    and zs: "list_all (\<lambda>v. - height / 2 \<le> v \<and> v \<le> height / 2) zside"
  shows "list_all (\<lambda>p. on_cylinder height radius p \<and> in_cylinder height radius p)
     (assign_mask (map Not is_top) 2 zside
       (assign_mask (map Not is_top) 1
          (map (\<lambda>t. radius * cos t) (select_mask (map Not is_top) theta))
         (assign_mask (map Not is_top) 0
            (map (\<lambda>t. radius * sin t) (select_mask (map Not is_top) theta))
           (assign_mask is_top 2 ztop
             (assign_mask is_top 1
                (map2 (\<lambda>a t. a * cos t) (map (\<lambda>v. radius * sqrt v) w)
                   (select_mask is_top theta))
               (assign_mask is_top 0
                  (map2 (\<lambda>a t. a * sin t) (map (\<lambda>v. radius * sqrt v) w)
                     (select_mask is_top theta))
                 (np_empty junk k)))))))"
    (is "list_all ?Q ?S2")
proof -
  let ?kt = "length (filter id is_top)"
  let ?not_top = "map Not is_top"
  let ?sel = "select_mask is_top theta"
  let ?R = "map (\<lambda>v. radius * sqrt v) w"
  let ?VX = "map2 (\<lambda>a t. a * sin t) ?R ?sel"
  let ?VY = "map2 (\<lambda>a t. a * cos t) ?R ?sel"
  let ?S1 = "assign_mask is_top 2 ztop (assign_mask is_top 1 ?VY
               (assign_mask is_top 0 ?VX (np_empty junk k)))"
  let ?nsel = "select_mask ?not_top theta"
  let ?WX = "map (\<lambda>t. radius * sin t) ?nsel"
  let ?WY = "map (\<lambda>t. radius * cos t) ?nsel"
  let ?Ptop = "\<lambda>p. norm_xy p \<le> radius \<and> \<bar>zcoord p\<bar> = height / 2"
  let ?Pside = "\<lambda>p. norm_xy p = radius \<and> \<bar>zcoord p\<bar> \<le> height / 2"
  have lsel: "length ?sel = ?kt"
    using lm lt by (simp add: length_select_mask)
  have lnsel: "length ?nsel = length (filter id ?not_top)"
    using lm lt by (simp add: length_select_mask)
  have lnot: "length (filter id ?not_top) = k - ?kt"
    by (simp only: length_filter_Not lm)
  have top: "list_all ?Ptop (zip ?VX (zip ?VY ztop))"
    unfolding list_all_length
  proof (intro allI impI)
    fix i assume "i < length (zip ?VX (zip ?VY ztop))"
    then have i: "i < ?kt" using lw lsel lzt by simp
    from w i lw have wi: "0 \<le> w ! i" "w ! i < 1" by (simp_all add: list_all_length)
    from zt i lzt have "ztop ! i = - height / 2 \<or> ztop ! i = height / 2"
      by (simp add: list_all_length)
    then have "\<bar>ztop ! i\<bar> = height / 2" using h by auto
    then show "?Ptop (zip ?VX (zip ?VY ztop) ! i)"
      using i lw lsel lzt disk_radius[OF r wi]
      by (simp add: norm_xy_polar zcoord_def)
  qed
  have side: "list_all ?Pside (zip ?WX (zip ?WY zside))"
    unfolding list_all_length
  proof (intro allI impI)
    fix i assume "i < length (zip ?WX (zip ?WY zside))"
    then have i: "i < k - ?kt" using lnsel lnot lzs by simp
    from zs i lzs have "- height / 2 \<le> zside ! i" "zside ! i \<le> height / 2"
      by (simp_all add: list_all_length)
    then have "\<bar>zside ! i\<bar> \<le> height / 2" by auto
    then show "?Pside (zip ?WX (zip ?WY zside) ! i)"
      using i lnsel lnot lzs r by (simp add: norm_xy_polar zcoord_def)
  qed
  have A: "list_all2 (\<lambda>(b, s) p. if b then ?Ptop p else p = s)
             (zip is_top (np_empty junk k)) ?S1"
    using lm lw lsel lzt top by (intro assign3_rows) (simp_all add: np_empty_def)
  have l1: "length ?S1 = k" by (simp add: length_assign_mask np_empty_def)
  have B: "list_all2 (\<lambda>(b, s) p. if b then ?Pside p else p = s) (zip ?not_top ?S1) ?S2"
    using lm lnsel lnot lzs side l1 by (intro assign3_rows) simp_all
  have C: "list_all (\<lambda>p. ?Ptop p \<or> ?Pside p) ?S2"
    by (rule combine_rows[OF A B]) (simp add: np_empty_def lm)
  have imp: "?Q p" if "?Ptop p \<or> ?Pside p" for p
    using that by (auto simp: on_cylinder_def in_cylinder_def)
  show ?thesis by (rule list_all_mono[OF C]) (rule imp)
qed

lemma sample_cylinder_surface_inside:
  assumes h: "0 \<le> height" and r: "0 \<le> radius" and ok: "rng_ok g"
    and eq: "sample_cylinder_surface junk height radius n g = Inr (samples, g')"
  shows "list_all (\<lambda>p. on_cylinder height radius p \<and> in_cylinder height radius p) samples"
    and "length samples = nat n"
proof -
  let ?ratio = "2 * pi * radius\<^sup>2 / (2 * pi * radius\<^sup>2 + 2 * pi * radius * height)"
  from eq obtain u g1 theta g2 w g3 ztop g4 zside where
    u: "rng_uniform 0 1 n g = Inr (u, g1)"
    and t: "rng_uniform 0 (2 * pi) n g1 = Inr (theta, g2)"
    and w: "rng_uniform 0 1 (int (length (filter id (map (\<lambda>v. v < ?ratio) u)))) g2 = Inr (w, g3)"
    and zt: "rng_choice2 (- height / 2) (height / 2)
               (int (length (filter id (map (\<lambda>v. v < ?ratio) u)))) g3 = Inr (ztop, g4)"
    and zs: "rng_uniform (- height / 2) (height / 2)
               (n - int (length (filter id (map (\<lambda>v. v < ?ratio) u)))) g4 = Inr (zside, g')"
    and s: "samples =
      assign_mask (map Not (map (\<lambda>v. v < ?ratio) u)) 2 zside
       (assign_mask (map Not (map (\<lambda>v. v < ?ratio) u)) 1
          (map (\<lambda>t. radius * cos t) (select_mask (map Not (map (\<lambda>v. v < ?ratio) u)) theta))
         (assign_mask (map Not (map (\<lambda>v. v < ?ratio) u)) 0
            (map (\<lambda>t. radius * sin t) (select_mask (map Not (map (\<lambda>v. v < ?ratio) u)) theta))
           (assign_mask (map (\<lambda>v. v < ?ratio) u) 2 ztop
             (assign_mask (map (\<lambda>v. v < ?ratio) u) 1
                (map2 (\<lambda>a t. a * cos t) (map (\<lambda>v. radius * sqrt v) w)
                   (select_mask (map (\<lambda>v. v < ?ratio) u) theta))
               (assign_mask (map (\<lambda>v. v < ?ratio) u) 0
                  (map2 (\<lambda>a t. a * sin t) (map (\<lambda>v. radius * sqrt v) w)
                     (select_mask (map (\<lambda>v. v < ?ratio) u) theta))
                 (np_empty junk (nat n)))))))"
    by (auto simp only: sample_cylinder_surface_def Let_def
        split: if_splits sum.splits prod.splits)
  have g1: "g1 = advance (nat n) g" by (rule rng_uniform_InrD(3)[OF u])
  have g2: "g2 = advance (nat n) g1" by (rule rng_uniform_InrD(3)[OF t])
  have g3: "g3 = advance (nat (int (length (filter id (map (\<lambda>v. v < ?ratio) u))))) g2"
    by (rule rng_uniform_InrD(3)[OF w])
  have g4: "g4 = advance (nat (int (length (filter id (map (\<lambda>v. v < ?ratio) u))))) g3"
    by (rule rng_choice2_InrD(3)[OF zt])
  have ok2: "rng_ok g2" and ok4: "rng_ok g4"
    using ok by (simp_all add: g1 g2 g3 g4)
  have hh: "- height / 2 \<le> height / 2" using h by simp
  have n0: "0 \<le> n" by (rule rng_uniform_InrD(1)[OF u])
  have lu: "length (map (\<lambda>v. v < ?ratio) u) = nat n"
    using rng_uniform_InrD(2)[OF u] by simp
  have lzs: "length zside = nat n - length (filter id (map (\<lambda>v. v < ?ratio) u))"
    using rng_uniform_InrD(2)[OF zs] n0 by (simp add: nat_diff_distrib')
  have lw: "length w = length (filter id (map (\<lambda>v. v < ?ratio) u))"
    using rng_uniform_InrD(2)[OF w] by simp
  have lzt: "length ztop = length (filter id (map (\<lambda>v. v < ?ratio) u))"
    using rng_choice2_InrD(2)[OF zt] by simp
  show "list_all (\<lambda>p. on_cylinder height radius p \<and> in_cylinder height radius p) samples"
    unfolding s
    by (rule surface_rows[OF r h lu rng_uniform_InrD(2)[OF t] lw lzt lzs
          rng_uniform_unit[OF w ok2] rng_choice2_InrD(4)[OF zt] rng_uniform_bounds[OF zs ok4 hh]])
  show "length samples = nat n"
    unfolding s by (simp add: length_assign_mask np_empty_def)
qed


lemma sample_cylinder_volume_returns:
  "0 \<le> n \<Longrightarrow> \<exists>samples g'. sample_cylinder_volume junk height radius n g = Inr (samples, g')"
  by (simp add: sample_cylinder_volume_def rng_uniform_def Let_def)

lemma sample_cylinder_surface_returns:
  assumes n: "0 \<le> n" and r: "0 < radius" and h: "0 \<le> height"
  shows "\<exists>samples g'. sample_cylinder_surface junk height radius n g = Inr (samples, g')"
proof -
  have "0 < radius * (radius + height)" using r h by (intro mult_pos_pos) simp_all
  then have "0 < 2 * pi * (radius * (radius + height))" by simp
  also have "2 * pi * (radius * (radius + height)) = 2 * pi * radius\<^sup>2 + 2 * pi * radius * height"
    by (simp add: power2_eq_square algebra_simps)
  finally have d: "2 * pi * radius\<^sup>2 + 2 * pi * radius * height \<noteq> 0" by simp
  have le: "\<not> n < int (length (filter P [0..<nat n]))" for P
  proof -
    have "length (filter P [0..<nat n]) \<le> length [0..<nat n]" by (rule length_filter_le)
    with n show ?thesis by simp
  qed
  show ?thesis
    using n d by (simp add: sample_cylinder_surface_def rng_uniform_def rng_choice2_def Let_def le)
qed

text \<open>
  Claim C2. For a non-negative height and radius and every count \<open>n\<close>, every point
  returned by \<open>sample_cylinder_volume\<close> has \<open>sqrt (x\<^sup>2 + y\<^sup>2) \<le> radius\<close> and
  \<open>\<bar>z\<bar> \<le> height / 2\<close>, and every point returned by \<open>sample_cylinder_surface\<close> lies on
  the lateral surface (\<open>sqrt (x\<^sup>2 + y\<^sup>2) = radius\<close>) or on a cap (\<open>\<bar>z\<bar> = height / 2\<close>) and
  within the cylinder. Both return \<open>n\<close> points: the volume sampler for every \<open>n \<ge> 0\<close>,
  the surface sampler for every \<open>n \<ge> 0\<close> when the radius is positive.
\<close>

theorem cylinder_samples_inside:
  assumes h: "0 \<le> height" and r: "0 \<le> radius" and ok: "rng_ok g"
  shows "(\<forall>samples g'. sample_cylinder_volume junk height radius n g = Inr (samples, g')
            \<longrightarrow> length samples = nat n \<and> list_all (in_cylinder height radius) samples)
       \<and> (\<forall>samples g'. sample_cylinder_surface junk height radius n g = Inr (samples, g')
            \<longrightarrow> length samples = nat n
                \<and> list_all (\<lambda>p. on_cylinder height radius p \<and> in_cylinder height radius p) samples)
       \<and> (0 \<le> n \<longrightarrow> (\<exists>samples g'. sample_cylinder_volume junk height radius n g = Inr (samples, g')))
       \<and> (0 \<le> n \<and> 0 < radius
            \<longrightarrow> (\<exists>samples g'. sample_cylinder_surface junk height radius n g = Inr (samples, g')))"
proof (intro conjI allI impI)
  fix samples g'
  assume "sample_cylinder_volume junk height radius n g = Inr (samples, g')"
  then show "length samples = nat n" and "list_all (in_cylinder height radius) samples"
    using sample_cylinder_volume_inside[OF h r ok] by blast+
next
  fix samples g'
  assume "sample_cylinder_surface junk height radius n g = Inr (samples, g')"
  then show "length samples = nat n"
    and "list_all (\<lambda>p. on_cylinder height radius p \<and> in_cylinder height radius p) samples"
    using sample_cylinder_surface_inside[OF h r ok] by blast+
next
  assume "0 \<le> n"
  then show "\<exists>samples g'. sample_cylinder_volume junk height radius n g = Inr (samples, g')"
    by (rule sample_cylinder_volume_returns)
next
  assume "0 \<le> n \<and> 0 < radius"
  then show "\<exists>samples g'. sample_cylinder_surface junk height radius n g = Inr (samples, g')"
    using sample_cylinder_surface_returns[OF _ _ h] by blast
qed

lemma volume_example:
  "sample_cylinder_volume 99 10 5 2 rng_half
     = Inr ([(0, - (5 * sqrt (1/2)), 0), (0, - (5 * sqrt (1/2)), 0)], advance 6 rng_half)"
proof -
  have t: "rng_uniform 0 (2 * pi) 2 rng_half = Inr ([pi, pi], advance 2 rng_half)"
    by (simp add: rng_uniform_def rng_half_def eval_nat_numeral)
  have u: "rng_uniform 0 1 2 (advance 2 rng_half) = Inr ([1/2, 1/2], advance 4 rng_half)"
    by (simp add: rng_uniform_def rng_half_def eval_nat_numeral)
  have z: "rng_uniform (- 10 / 2) (10 / 2) 2 (advance 4 rng_half) = Inr ([0, 0], advance 6 rng_half)"
    by (simp add: rng_uniform_def rng_half_def eval_nat_numeral)
  have e: "np_empty 99 (nat 2) = [(99, 99, 99), (99, 99, 99)]"
    by (simp add: np_empty_def eval_nat_numeral)
  have c: "assign_all 2 [0, 0]
            (assign_all 1 (map2 (\<lambda>a t. a * cos t) (map (\<lambda>v. 5 * sqrt v) [1/2, 1/2]) [pi, pi])
              (assign_all 0 (map2 (\<lambda>a t. a * sin t) (map (\<lambda>v. 5 * sqrt v) [1/2, 1/2]) [pi, pi])
                [(99, 99, 99), (99, 99, 99)]))
           = [(0, - (5 * sqrt (1/2)), 0), (0, - (5 * sqrt (1/2)), 0)]"
    by (simp add: assign_all_def set_col_def)
  show ?thesis
    unfolding sample_cylinder_volume_def
    by (simp only: t u z e c sum.case prod.case Let_def)
qed

theorem cylinder_samples_inside_witness:
  "(0::real) \<le> 10 \<and> (0::real) \<le> 5 \<and> rng_ok rng_half \<and> (0::int) \<le> 2 \<and> (0::real) < 5
   \<and> sample_cylinder_volume 99 10 5 2 rng_half
       = Inr ([(0, - (5 * sqrt (1/2)), 0), (0, - (5 * sqrt (1/2)), 0)], advance 6 rng_half)
   \<and> list_all (in_cylinder 10 5) [(0, - (5 * sqrt (1/2)), 0), (0, - (5 * sqrt (1/2)), 0)]
   \<and> (\<exists>samples g'. sample_cylinder_surface 99 10 5 2 rng_half = Inr (samples, g')
        \<and> length samples = 2
        \<and> list_all (\<lambda>p. on_cylinder 10 5 p \<and> in_cylinder 10 5 p) samples)"
proof -
  have h: "(0::real) \<le> 10" and r: "(0::real) \<le> 5" and n: "(0::int) \<le> 2" and r': "(0::real) < 5"
    by simp_all
  have ok: "rng_ok rng_half" by (simp add: rng_ok_def rng_half_def)
  note t = cylinder_samples_inside [OF h r ok, of 99 2]
  from t volume_example
  have v: "list_all (in_cylinder 10 5) [(0, - (5 * sqrt (1/2)), 0), (0, - (5 * sqrt (1/2)), 0)]"
    by blast
  from t n r' have s: "\<exists>samples g'. sample_cylinder_surface 99 10 5 2 rng_half = Inr (samples, g')
        \<and> length samples = 2
        \<and> list_all (\<lambda>p. on_cylinder 10 5 p \<and> in_cylinder 10 5 p) samples"
    by (simp only: nat_numeral) blast
  from h r ok n r' volume_example v s show ?thesis by blast
qed

text \<open>
  With radius 0 both areas vanish and the ratio of the areas is a division by zero: the
  surface sampler raises before it draws anything.
\<close>

lemma sample_cylinder_surface_radius_0:
  "sample_cylinder_surface junk height 0 n g = Inl (ZeroDivisionError ''float division by zero'')"
  by (simp add: sample_cylinder_surface_def)

end
